theory Spec2Isabelle
  imports Main "HOL-Library.Char_ord" "HOL-Library.List_Lexorder" "HOL-Library.Multiset"
begin

section \<open>Python values used by the two scripts\<close>

text \<open>
  The repository holds two scripts, \<^verbatim>\<open>batch_convert_to_ico_pro.py\<close> and
  \<^verbatim>\<open>batch_convert_to_ico.py\<close>. Each defines \<^verbatim>\<open>convert_svg_to_ico\<close> and
  \<^verbatim>\<open>git_commit_and_push\<close>. File names and paths are Python strings; they are modelled
  as \<^typ>\<open>string\<close>, read as ASCII text, ordered by code point and then
  lexicographically, as Python orders \<^verbatim>\<open>str\<close>. Sizes are Python integers, modelled as
  \<^typ>\<open>int\<close>.
\<close>

subsection \<open>String methods\<close>

definition lower_char :: "char \<Rightarrow> char" where
  "lower_char c =
     (if CHR ''A'' \<le> c \<and> c \<le> CHR ''Z'' then char_of (of_char c + (32::nat)) else c)"

definition lower :: "string \<Rightarrow> string" where
  \<comment> \<open>\<^verbatim>\<open>s.lower()\<close>\<close>
  "lower s = map lower_char s"

definition endswith :: "string \<Rightarrow> string \<Rightarrow> bool" where
  \<comment> \<open>\<^verbatim>\<open>s.endswith(suf)\<close>\<close>
  "endswith s suf = (length suf \<le> length s \<and> drop (length s - length suf) s = suf)"

definition chop :: "nat \<Rightarrow> string \<Rightarrow> string" where
  \<comment> \<open>the slice \<^verbatim>\<open>s[:-n]\<close> for a positive literal \<^verbatim>\<open>n\<close>; empty when \<^verbatim>\<open>len(s) <= n\<close>\<close>
  "chop n s = take (length s - n) s"

definition isdigit_char :: "char \<Rightarrow> bool" where
  "isdigit_char c = (CHR ''0'' \<le> c \<and> c \<le> CHR ''9'')"

definition isdigit :: "string \<Rightarrow> bool" where
  \<comment> \<open>\<^verbatim>\<open>s.isdigit()\<close>: false on the empty string\<close>
  "isdigit s = (s \<noteq> [] \<and> list_all isdigit_char s)"

definition rsplit1 :: "char \<Rightarrow> string \<Rightarrow> string list" where
  \<comment> \<open>\<^verbatim>\<open>s.rsplit(sep, 1)\<close> for a one-character separator: split at the last occurrence\<close>
  "rsplit1 sep s =
     (if sep \<in> set s
      then [rev (tl (dropWhile (\<lambda>c. c \<noteq> sep) (rev s))), rev (takeWhile (\<lambda>c. c \<noteq> sep) (rev s))]
      else [s])"

definition any_of :: "bool list \<Rightarrow> bool" where
  \<comment> \<open>the builtin \<^verbatim>\<open>any\<close> on a list of booleans\<close>
  "any_of bs = list_ex (\<lambda>b. b) bs"

fun str_nat :: "nat \<Rightarrow> string" where
  "str_nat n =
     (if n < 10 then [char_of (48 + n)] else str_nat (n div 10) @ [char_of (48 + n mod 10)])"

declare str_nat.simps [simp del]

definition str_int :: "int \<Rightarrow> string" where
  \<comment> \<open>\<^verbatim>\<open>str(i)\<close>, which is what an f-string field \<^verbatim>\<open>{i}\<close> writes\<close>
  "str_int i = (if i < 0 then CHR ''-'' # str_nat (nat (- i)) else str_nat (nat i))"

section \<open>Classification of the directory listing\<close>

text \<open>
  \<^verbatim>\<open>ends_with_px\<close> is a nested function of \<^verbatim>\<open>convert_svg_to_ico\<close>; note the separator
  \<^verbatim>\<open>'#'\<close> given to \<^verbatim>\<open>rsplit\<close>.
\<close>

definition ends_with_px :: "string \<Rightarrow> bool" where
  "ends_with_px s =
     (if \<not> endswith s ''px'' then False
      else let parts = rsplit1 CHR ''#'' s
           in if length parts \<noteq> 2 then False
              else isdigit (chop 2 (parts ! 1)))"

text \<open>
  The two comprehensions over \<^verbatim>\<open>os.listdir(input_folder)\<close>. The listing is the
  argument \<open>listdir\<close>; \<open>sizes\<close> is the list after \<^verbatim>\<open>sizes = sorted(sizes)\<close>. The loop
  variable \<^verbatim>\<open>s\<close> of the inner comprehension does not occur in its body, and the second
  comprehension ranges over \<^verbatim>\<open>sizes[:-1]\<close>.
\<close>

definition base_filenames :: "string list \<Rightarrow> int list \<Rightarrow> string list" where
  "base_filenames listdir sizes =
     sort [filename \<leftarrow> listdir.
             endswith (lower filename) ''.svg''
             \<and> \<not> any_of (map (\<lambda>s. ends_with_px (lower (chop 4 filename))) sizes)]"

definition alt_filenames :: "string list \<Rightarrow> int list \<Rightarrow> string list" where
  "alt_filenames listdir sizes =
     sort [filename \<leftarrow> listdir.
             endswith (lower filename) ''.svg''
             \<and> any_of (map (\<lambda>s. ends_with_px (lower (chop 4 filename))) (butlast sizes))]"

section \<open>Exceptions, paths and the version-control queries\<close>

datatype exn = IndexError | UnboundLocalError | CalledProcessError | OSError

text \<open>
  The functions of \<^verbatim>\<open>os.path\<close> belong to the platform, not to the repository; the
  model takes them as a parameter.
\<close>

record os_path =
  join :: "string \<Rightarrow> string \<Rightarrow> string"
  normpath :: "string \<Rightarrow> string"
  basename :: "string \<Rightarrow> string"

definition isspace_char :: "char \<Rightarrow> bool" where
  "isspace_char c = (let n = (of_char c :: nat) in (9 \<le> n \<and> n \<le> 13) \<or> (28 \<le> n \<and> n \<le> 32))"

definition strip :: "string \<Rightarrow> string" where
  \<comment> \<open>\<^verbatim>\<open>s.strip()\<close>\<close>
  "strip s = rev (dropWhile isspace_char (rev (dropWhile isspace_char s)))"

text \<open>
  What the four \<^verbatim>\<open>subprocess.check_output\<close> calls of the incremental branch return
  or raise: \<^verbatim>\<open>git rev-parse --show-toplevel\<close>, then \<^verbatim>\<open>git diff --name-only\<close>,
  \<^verbatim>\<open>git diff --name-only --cached\<close> and \<^verbatim>\<open>git ls-files --others --exclude-standard\<close>,
  the last three already cut by \<^verbatim>\<open>splitlines()\<close>.
\<close>

record git_output =
  rev_parse :: "exn + string"
  diff_name_only :: "exn + string list"
  diff_cached :: "exn + string list"
  ls_files_others :: "exn + string list"

datatype message =
    Filtering_for_changed
  | Filtering_enabled nat nat
  | Repo_root string
  | Failed_to_filter exn

section \<open>Incremental filtering\<close>

text \<open>The loop \<^verbatim>\<open>for cmd in [...]\<close> that fills the set \<^verbatim>\<open>changed_paths\<close>.\<close>

fun changed_paths :: "os_path \<Rightarrow> string \<Rightarrow> (exn + string list) list \<Rightarrow> string set \<Rightarrow> exn + string set"
  where
  "changed_paths os repo_root [] acc = Inr acc"
| "changed_paths os repo_root (Inl e # cmds) acc = Inl e"
| "changed_paths os repo_root (Inr output_lines # cmds) acc =
     changed_paths os repo_root cmds
       (acc \<union> set (map (\<lambda>line. normpath os (join os repo_root (strip line)))
                       (filter (\<lambda>line. strip line \<noteq> []) output_lines)))"

text \<open>The inner loop \<^verbatim>\<open>for size in sizes\<close> (\<open>sz\<close> stands for \<^verbatim>\<open>size\<close>): true when it reaches
  its \<^verbatim>\<open>append\<close>.\<close>

fun variant_changed ::
  "os_path \<Rightarrow> string \<Rightarrow> string list \<Rightarrow> string set \<Rightarrow> string \<Rightarrow> int list \<Rightarrow> bool" where
  "variant_changed os input_folder alts changed base [] = False"
| "variant_changed os input_folder alts changed base (sz # sizes) =
     (let variant_name = chop 4 base @ ''-'' @ str_int sz @ ''px.svg''
      in if variant_name \<in> set alts
         then (let variant_path = normpath os (join os input_folder variant_name)
               in if variant_path \<in> changed then True
                  else variant_changed os input_folder alts changed base sizes)
         else variant_changed os input_folder alts changed base sizes)"

text \<open>The outer loop \<^verbatim>\<open>for base in base_filenames\<close> that builds \<^verbatim>\<open>filtered_base\<close>.\<close>

fun filtered_base ::
  "os_path \<Rightarrow> string \<Rightarrow> string list \<Rightarrow> string set \<Rightarrow> int list \<Rightarrow> string list \<Rightarrow> string list" where
  "filtered_base os input_folder alts changed sizes [] = []"
| "filtered_base os input_folder alts changed sizes (base # bases) =
     (let base_path = normpath os (join os input_folder base)
      in if base_path \<in> changed
         then base # filtered_base os input_folder alts changed sizes bases
         else if variant_changed os input_folder alts changed base sizes
              then base # filtered_base os input_folder alts changed sizes bases
              else filtered_base os input_folder alts changed sizes bases)"

text \<open>
  The branch \<^verbatim>\<open>if only_changed:\<close> of \<^verbatim>\<open>batch_convert_to_ico_pro.py\<close>: what it
  prints, and either the new value of \<^verbatim>\<open>base_filenames\<close> or the exception that leaves
  \<^verbatim>\<open>convert_svg_to_ico\<close>. The handler \<^verbatim>\<open>except Exception as e\<close> first formats
  \<^verbatim>\<open>repo_root\<close>, a local variable that is bound only once the first query has
  returned.
\<close>

definition filter_changed ::
  "os_path \<Rightarrow> string \<Rightarrow> git_output \<Rightarrow> string list \<Rightarrow> string list \<Rightarrow> int list
     \<Rightarrow> message list \<times> (exn + string list)" where
  "filter_changed os input_folder git bases alts sizes =
     (case rev_parse git of
        Inl e \<Rightarrow> ([Filtering_for_changed], Inl UnboundLocalError)
      | Inr out \<Rightarrow>
          (let repo_root = strip out
           in case changed_paths os repo_root
                     [diff_name_only git, diff_cached git, ls_files_others git] {} of
                Inl e \<Rightarrow>
                  ([Filtering_for_changed, Repo_root repo_root, Failed_to_filter e], Inr bases)
              | Inr changed \<Rightarrow>
                  (let filtered = filtered_base os input_folder alts changed sizes bases
                   in ([Filtering_for_changed,
                        Filtering_enabled (length filtered) (length bases)], Inr filtered))))"

section \<open>Assignment of sizes to sources\<close>

text \<open>The dictionaries \<^verbatim>\<open>{'path': ..., 'maximum_size': ...}\<close> of the list \<^verbatim>\<open>inputs\<close>.\<close>

record input =
  path :: string
  maximum_size :: int

text \<open>The loop \<^verbatim>\<open>for size in sizes\<close> that appends the alternatives found for a base file.\<close>

fun alt_inputs :: "os_path \<Rightarrow> string \<Rightarrow> string list \<Rightarrow> string \<Rightarrow> int list \<Rightarrow> input list" where
  "alt_inputs os input_folder alts base_filename [] = []"
| "alt_inputs os input_folder alts base_filename (sz # sizes) =
     (let assumed_filename = chop 4 base_filename @ ''-'' @ str_int sz @ ''px.svg''
      in if assumed_filename \<notin> set alts
         then alt_inputs os input_folder alts base_filename sizes
         else \<lparr>path = join os input_folder assumed_filename, maximum_size = sz\<rparr>
                # alt_inputs os input_folder alts base_filename sizes)"

text \<open>
  The loop \<^verbatim>\<open>for size_index in range(len(sizes))\<close>. Its state is the current
  \<^verbatim>\<open>input\<close> and the list \<^verbatim>\<open>inputs\<close> that \<^verbatim>\<open>pop(0)\<close> shortens; each round hands
  \<^verbatim>\<open>input['path']\<close> and the current size to the converter. The result lists these
  pairs in order, or is the \<^verbatim>\<open>IndexError\<close> of \<^verbatim>\<open>pop\<close> on an empty list.
\<close>

fun assign_sizes :: "input \<Rightarrow> input list \<Rightarrow> int list \<Rightarrow> exn + (string \<times> int) list" where
  "assign_sizes cur inputs [] = Inr []"
| "assign_sizes cur inputs (current_size # sizes) =
     (if current_size > maximum_size cur
      then (case inputs of
              [] \<Rightarrow> Inl IndexError
            | nxt # inputs' \<Rightarrow>
                (case assign_sizes nxt inputs' sizes of
                   Inl e \<Rightarrow> Inl e
                 | Inr jobs \<Rightarrow> Inr ((path nxt, current_size) # jobs)))
      else (case assign_sizes cur inputs sizes of
              Inl e \<Rightarrow> Inl e
            | Inr jobs \<Rightarrow> Inr ((path cur, current_size) # jobs)))"

text \<open>
  The list \<^verbatim>\<open>inputs\<close> as it stands before the first \<^verbatim>\<open>pop(0)\<close>; \<^verbatim>\<open>sizes[-1]\<close>
  raises on an empty list.
\<close>

definition candidate_inputs ::
  "os_path \<Rightarrow> string \<Rightarrow> string list \<Rightarrow> string \<Rightarrow> int list \<Rightarrow> exn + input list" where
  "candidate_inputs os input_folder alts base_filename sizes =
     (if sizes = [] then Inl IndexError
      else Inr (alt_inputs os input_folder alts base_filename sizes
                @ [\<lparr>path = join os input_folder base_filename, maximum_size = last sizes\<rparr>]))"

text \<open>The body of \<^verbatim>\<open>for base_filename in base_filenames\<close>, up to the conversions it orders.\<close>

definition process_base ::
  "os_path \<Rightarrow> string \<Rightarrow> string list \<Rightarrow> string \<Rightarrow> int list \<Rightarrow> exn + (string \<times> int) list" where
  "process_base os input_folder alts base_filename sizes =
     (case candidate_inputs os input_folder alts base_filename sizes of
        Inl e \<Rightarrow> Inl e
      | Inr inputs \<Rightarrow>
          (case inputs of
             [] \<Rightarrow> Inl IndexError
           | first # inputs' \<Rightarrow> assign_sizes first inputs' sizes))"

fun process_all ::
  "os_path \<Rightarrow> string \<Rightarrow> string list \<Rightarrow> int list \<Rightarrow> string list
     \<Rightarrow> exn + (string \<times> (string \<times> int) list) list" where
  "process_all os input_folder alts sizes [] = Inr []"
| "process_all os input_folder alts sizes (base_filename # bases) =
     (case process_base os input_folder alts base_filename sizes of
        Inl e \<Rightarrow> Inl e
      | Inr jobs \<Rightarrow>
          (case process_all os input_folder alts sizes bases of
             Inl e \<Rightarrow> Inl e
           | Inr plans \<Rightarrow> Inr ((base_filename, jobs) # plans)))"

text \<open>
  \<^verbatim>\<open>convert_svg_to_ico\<close> of \<^verbatim>\<open>batch_convert_to_ico_pro.py\<close>: the messages of the
  incremental branch, and for every base file processed the conversions ordered for it,
  or the exception that ends the call.
\<close>

definition convert_svg_to_ico ::
  "os_path \<Rightarrow> string \<Rightarrow> string list \<Rightarrow> git_output \<Rightarrow> int list \<Rightarrow> bool
     \<Rightarrow> message list \<times> (exn + (string \<times> (string \<times> int) list) list)" where
  "convert_svg_to_ico os input_folder listdir git sizes0 only_changed =
     (let sizes = sort sizes0;
          bases = base_filenames listdir sizes;
          alts = alt_filenames listdir sizes;
          (printed, worklist) =
             (if only_changed then filter_changed os input_folder git bases alts sizes
              else ([], Inr bases))
      in case worklist of
           Inl e \<Rightarrow> (printed, Inl e)
         | Inr bases' \<Rightarrow> (printed, process_all os input_folder alts sizes bases'))"

section \<open>The commit message\<close>

definition strip_chars :: "string \<Rightarrow> string \<Rightarrow> string" where
  \<comment> \<open>\<^verbatim>\<open>s.strip(chars)\<close>\<close>
  "strip_chars chars s =
     rev (dropWhile (\<lambda>c. c \<in> set chars) (rev (dropWhile (\<lambda>c. c \<in> set chars) s)))"

fun split_head :: "string \<Rightarrow> string \<Rightarrow> string" where
  \<comment> \<open>\<^verbatim>\<open>s.split(sep)[0]\<close>: what stands before the first occurrence of \<^verbatim>\<open>sep\<close>\<close>
  "split_head sep [] = []"
| "split_head sep (c # cs) = (if take (length sep) (c # cs) = sep then [] else c # split_head sep cs)"

fun contains :: "string \<Rightarrow> string \<Rightarrow> bool" where
  \<comment> \<open>\<^verbatim>\<open>sub in s\<close>\<close>
  "contains sub [] = (sub = [])"
| "contains sub (c # cs) = (take (length sub) (c # cs) = sub \<or> contains sub cs)"

fun str_join :: "string \<Rightarrow> string list \<Rightarrow> string" where
  \<comment> \<open>\<^verbatim>\<open>sep.join(xs)\<close>\<close>
  "str_join sep [] = []"
| "str_join sep [x] = x"
| "str_join sep (x # y # ys) = x @ sep @ str_join sep (y # ys)"

definition endswith_any :: "string \<Rightarrow> string list \<Rightarrow> bool" where
  \<comment> \<open>\<^verbatim>\<open>s.endswith((suf1, suf2, ...))\<close>\<close>
  "endswith_any s sufs = list_ex (endswith s) sufs"

text \<open>The four lists that the loop over \<^verbatim>\<open>status.splitlines()\<close> fills.\<close>

record status_lists =
  added_files :: "string list"
  modified_files :: "string list"
  deleted_files :: "string list"
  all_changed_paths :: "string list"

fun read_status :: "os_path \<Rightarrow> string list \<Rightarrow> status_lists \<Rightarrow> exn + status_lists" where
  "read_status os [] st = Inr st"
| "read_status os (line # lines) st =
     (case line of
        [] \<Rightarrow> Inl IndexError
      | staged_status # _ \<Rightarrow>
          (let path_info = strip_chars [CHR 0x22] (strip (drop 3 line));
               pth = (if staged_status = CHR ''R'' then split_head '' -> '' path_info
                      else path_info);
               st1 = st\<lparr>all_changed_paths := all_changed_paths st @ [pth]\<rparr>;
               filename = basename os pth
           in read_status os lines
                (if staged_status = CHR ''A''
                 then st1\<lparr>added_files := added_files st1 @ [filename]\<rparr>
                 else if staged_status = CHR ''M'' \<or> staged_status = CHR ''R''
                 then st1\<lparr>modified_files := modified_files st1 @ [filename]\<rparr>
                 else if staged_status = CHR ''D''
                 then st1\<lparr>deleted_files := deleted_files st1 @ [filename]\<rparr>
                 else st1)))"

text \<open>
  The branch \<^verbatim>\<open>if message is None:\<close> of \<^verbatim>\<open>git_commit_and_push\<close>, from the three
  icon lists on; \<open>today\<close> is \<^verbatim>\<open>time.strftime('%Y-%m-%d')\<close>.
\<close>

definition message_of :: "string \<Rightarrow> status_lists \<Rightarrow> string" where
  "message_of today st =
     (let added_icons = filter (\<lambda>f. endswith_any f [''.svg'', ''.ico'']) (added_files st);
          modified_icons = filter (\<lambda>f. endswith_any f [''.svg'', ''.ico'']) (modified_files st);
          deleted_icons = filter (\<lambda>f. endswith_any f [''.svg'', ''.ico'']) (deleted_files st)
      in if added_icons \<noteq> [] \<or> modified_icons \<noteq> [] \<or> deleted_icons \<noteq> []
         then (if length added_icons = 1 \<and> modified_icons = [] \<and> deleted_icons = []
               then ''feat: add '' @ added_icons ! 0
               else if length modified_icons = 1 \<and> added_icons = [] \<and> deleted_icons = []
               then ''feat: update '' @ modified_icons ! 0
               else (let counts0 = [];
                         counts1 = (if added_icons \<noteq> []
                                    then counts0 @ [''add '' @ str_int (int (length added_icons))]
                                    else counts0);
                         counts2 = (if modified_icons \<noteq> []
                                    then counts1 @ [''update '' @ str_int (int (length modified_icons))]
                                    else counts1);
                         counts3 = (if deleted_icons \<noteq> []
                                    then counts2 @ [''remove '' @ str_int (int (length deleted_icons))]
                                    else counts2)
                     in ''feat: '' @ str_join '', '' counts3 @ '' icons''))
         else (if list_ex (\<lambda>p. endswith p ''.md'') (all_changed_paths st)
               then ''docs: update documentation''
               else if list_ex (\<lambda>p. contains ''.github'' p) (all_changed_paths st)
               then ''ci: update workflow''
               else ''chore: update files '' @ today))"

text \<open>
  \<^verbatim>\<open>git_commit_and_push\<close> of \<^verbatim>\<open>batch_convert_to_ico_pro.py\<close>, as far as the message
  goes: \<open>status_lines\<close> is \<^verbatim>\<open>status.splitlines()\<close>, which is empty exactly when
  \<^verbatim>\<open>status\<close> is. The result is the message committed, \<open>None\<close> when there is nothing
  to commit, or the exception that the function's own handler catches before any commit.
\<close>

definition git_commit_and_push ::
  "os_path \<Rightarrow> string \<Rightarrow> string list \<Rightarrow> string option \<Rightarrow> exn + string option" where
  "git_commit_and_push os today status_lines message =
     (if status_lines \<noteq> []
      then (case message of
              None \<Rightarrow>
                (case read_status os status_lines
                        \<lparr>added_files = [], modified_files = [], deleted_files = [],
                         all_changed_paths = []\<rparr> of
                   Inl e \<Rightarrow> Inl e
                 | Inr st \<Rightarrow> Inr (Some (message_of today st)))
            | Some m \<Rightarrow> Inr (Some m))
      else Inr None)"

section \<open>The same functions in \<^verbatim>\<open>batch_convert_to_ico.py\<close>\<close>

text \<open>
  The second script reports through \<^verbatim>\<open>logging\<close>, configured at level \<^verbatim>\<open>INFO\<close>,
  where the first one prints. Its functions are translated again, from its own text,
  under the prefix \<open>ico_\<close>; the records declared above serve both.
\<close>

datatype level = DEBUG | INFO | WARNING | ERROR

definition ico_ends_with_px :: "string \<Rightarrow> bool" where
  "ico_ends_with_px s =
     (if \<not> endswith s ''px'' then False
      else let parts = rsplit1 CHR ''#'' s
           in if length parts \<noteq> 2 then False
              else isdigit (chop 2 (parts ! 1)))"

definition ico_base_filenames :: "string list \<Rightarrow> int list \<Rightarrow> string list" where
  "ico_base_filenames listdir sizes =
     sort [filename \<leftarrow> listdir.
             endswith (lower filename) ''.svg''
             \<and> \<not> any_of (map (\<lambda>s. ico_ends_with_px (lower (chop 4 filename))) sizes)]"

definition ico_alt_filenames :: "string list \<Rightarrow> int list \<Rightarrow> string list" where
  "ico_alt_filenames listdir sizes =
     sort [filename \<leftarrow> listdir.
             endswith (lower filename) ''.svg''
             \<and> any_of (map (\<lambda>s. ico_ends_with_px (lower (chop 4 filename))) (butlast sizes))]"

fun ico_changed_paths :: "os_path \<Rightarrow> string \<Rightarrow> (exn + string list) list \<Rightarrow> string set \<Rightarrow> exn + string set"
  where
  "ico_changed_paths os repo_root [] acc = Inr acc"
| "ico_changed_paths os repo_root (Inl e # cmds) acc = Inl e"
| "ico_changed_paths os repo_root (Inr output_lines # cmds) acc =
     ico_changed_paths os repo_root cmds
       (acc \<union> set (map (\<lambda>line. normpath os (join os repo_root (strip line)))
                       (filter (\<lambda>line. strip line \<noteq> []) output_lines)))"

fun ico_variant_changed ::
  "os_path \<Rightarrow> string \<Rightarrow> string list \<Rightarrow> string set \<Rightarrow> string \<Rightarrow> int list \<Rightarrow> bool" where
  "ico_variant_changed os input_folder alts changed base [] = False"
| "ico_variant_changed os input_folder alts changed base (sz # sizes) =
     (let variant_name = chop 4 base @ ''-'' @ str_int sz @ ''px.svg''
      in if variant_name \<in> set alts
         then (let variant_path = normpath os (join os input_folder variant_name)
               in if variant_path \<in> changed then True
                  else ico_variant_changed os input_folder alts changed base sizes)
         else ico_variant_changed os input_folder alts changed base sizes)"

fun ico_filtered_base ::
  "os_path \<Rightarrow> string \<Rightarrow> string list \<Rightarrow> string set \<Rightarrow> int list \<Rightarrow> string list \<Rightarrow> string list" where
  "ico_filtered_base os input_folder alts changed sizes [] = []"
| "ico_filtered_base os input_folder alts changed sizes (base # bases) =
     (let base_path = normpath os (join os input_folder base)
      in if base_path \<in> changed
         then base # ico_filtered_base os input_folder alts changed sizes bases
         else if ico_variant_changed os input_folder alts changed base sizes
              then base # ico_filtered_base os input_folder alts changed sizes bases
              else ico_filtered_base os input_folder alts changed sizes bases)"

text \<open>
  The branch \<^verbatim>\<open>if only_changed:\<close> with its \<^verbatim>\<open>logging\<close> calls, each with its level.
  The handler's \<^verbatim>\<open>logging.debug\<close> call formats \<^verbatim>\<open>repo_root\<close> into its argument
  before the call, whatever the level.
\<close>

definition ico_filter_changed ::
  "os_path \<Rightarrow> string \<Rightarrow> git_output \<Rightarrow> string list \<Rightarrow> string list \<Rightarrow> int list
     \<Rightarrow> (level \<times> message) list \<times> (exn + string list)" where
  "ico_filter_changed os input_folder git bases alts sizes =
     (case rev_parse git of
        Inl e \<Rightarrow> ([(INFO, Filtering_for_changed)], Inl UnboundLocalError)
      | Inr out \<Rightarrow>
          (let repo_root = strip out
           in case ico_changed_paths os repo_root
                     [diff_name_only git, diff_cached git, ls_files_others git] {} of
                Inl e \<Rightarrow>
                  ([(INFO, Filtering_for_changed), (DEBUG, Repo_root repo_root),
                    (WARNING, Failed_to_filter e)], Inr bases)
              | Inr changed \<Rightarrow>
                  (let filtered = ico_filtered_base os input_folder alts changed sizes bases
                   in ([(INFO, Filtering_for_changed),
                        (INFO, Filtering_enabled (length filtered) (length bases))],
                       Inr filtered))))"

fun ico_alt_inputs :: "os_path \<Rightarrow> string \<Rightarrow> string list \<Rightarrow> string \<Rightarrow> int list \<Rightarrow> input list" where
  "ico_alt_inputs os input_folder alts base_filename [] = []"
| "ico_alt_inputs os input_folder alts base_filename (sz # sizes) =
     (let assumed_filename = chop 4 base_filename @ ''-'' @ str_int sz @ ''px.svg''
      in if assumed_filename \<notin> set alts
         then ico_alt_inputs os input_folder alts base_filename sizes
         else \<lparr>path = join os input_folder assumed_filename, maximum_size = sz\<rparr>
                # ico_alt_inputs os input_folder alts base_filename sizes)"

fun ico_assign_sizes :: "input \<Rightarrow> input list \<Rightarrow> int list \<Rightarrow> exn + (string \<times> int) list" where
  "ico_assign_sizes cur inputs [] = Inr []"
| "ico_assign_sizes cur inputs (current_size # sizes) =
     (if current_size > maximum_size cur
      then (case inputs of
              [] \<Rightarrow> Inl IndexError
            | nxt # inputs' \<Rightarrow>
                (case ico_assign_sizes nxt inputs' sizes of
                   Inl e \<Rightarrow> Inl e
                 | Inr jobs \<Rightarrow> Inr ((path nxt, current_size) # jobs)))
      else (case ico_assign_sizes cur inputs sizes of
              Inl e \<Rightarrow> Inl e
            | Inr jobs \<Rightarrow> Inr ((path cur, current_size) # jobs)))"

definition ico_candidate_inputs ::
  "os_path \<Rightarrow> string \<Rightarrow> string list \<Rightarrow> string \<Rightarrow> int list \<Rightarrow> exn + input list" where
  "ico_candidate_inputs os input_folder alts base_filename sizes =
     (if sizes = [] then Inl IndexError
      else Inr (ico_alt_inputs os input_folder alts base_filename sizes
                @ [\<lparr>path = join os input_folder base_filename, maximum_size = last sizes\<rparr>]))"

definition ico_process_base ::
  "os_path \<Rightarrow> string \<Rightarrow> string list \<Rightarrow> string \<Rightarrow> int list \<Rightarrow> exn + (string \<times> int) list" where
  "ico_process_base os input_folder alts base_filename sizes =
     (case ico_candidate_inputs os input_folder alts base_filename sizes of
        Inl e \<Rightarrow> Inl e
      | Inr inputs \<Rightarrow>
          (case inputs of
             [] \<Rightarrow> Inl IndexError
           | first # inputs' \<Rightarrow> ico_assign_sizes first inputs' sizes))"

fun ico_process_all ::
  "os_path \<Rightarrow> string \<Rightarrow> string list \<Rightarrow> int list \<Rightarrow> string list
     \<Rightarrow> exn + (string \<times> (string \<times> int) list) list" where
  "ico_process_all os input_folder alts sizes [] = Inr []"
| "ico_process_all os input_folder alts sizes (base_filename # bases) =
     (case ico_process_base os input_folder alts base_filename sizes of
        Inl e \<Rightarrow> Inl e
      | Inr jobs \<Rightarrow>
          (case ico_process_all os input_folder alts sizes bases of
             Inl e \<Rightarrow> Inl e
           | Inr plans \<Rightarrow> Inr ((base_filename, jobs) # plans)))"

definition ico_convert_svg_to_ico ::
  "os_path \<Rightarrow> string \<Rightarrow> string list \<Rightarrow> git_output \<Rightarrow> int list \<Rightarrow> bool
     \<Rightarrow> (level \<times> message) list \<times> (exn + (string \<times> (string \<times> int) list) list)" where
  "ico_convert_svg_to_ico os input_folder listdir git sizes0 only_changed =
     (let sizes = sort sizes0;
          bases = ico_base_filenames listdir sizes;
          alts = ico_alt_filenames listdir sizes;
          (logged, worklist) =
             (if only_changed then ico_filter_changed os input_folder git bases alts sizes
              else ([], Inr bases))
      in case worklist of
           Inl e \<Rightarrow> (logged, Inl e)
         | Inr bases' \<Rightarrow> (logged, ico_process_all os input_folder alts sizes bases'))"

fun ico_read_status :: "os_path \<Rightarrow> string list \<Rightarrow> status_lists \<Rightarrow> exn + status_lists" where
  "ico_read_status os [] st = Inr st"
| "ico_read_status os (line # lines) st =
     (case line of
        [] \<Rightarrow> Inl IndexError
      | staged_status # _ \<Rightarrow>
          (let path_info = strip_chars [CHR 0x22] (strip (drop 3 line));
               pth = (if staged_status = CHR ''R'' then split_head '' -> '' path_info
                      else path_info);
               st1 = st\<lparr>all_changed_paths := all_changed_paths st @ [pth]\<rparr>;
               filename = basename os pth
           in ico_read_status os lines
                (if staged_status = CHR ''A''
                 then st1\<lparr>added_files := added_files st1 @ [filename]\<rparr>
                 else if staged_status = CHR ''M'' \<or> staged_status = CHR ''R''
                 then st1\<lparr>modified_files := modified_files st1 @ [filename]\<rparr>
                 else if staged_status = CHR ''D''
                 then st1\<lparr>deleted_files := deleted_files st1 @ [filename]\<rparr>
                 else st1)))"

definition ico_message_of :: "string \<Rightarrow> status_lists \<Rightarrow> string" where
  "ico_message_of today st =
     (let added_icons = filter (\<lambda>f. endswith_any f [''.svg'', ''.ico'']) (added_files st);
          modified_icons = filter (\<lambda>f. endswith_any f [''.svg'', ''.ico'']) (modified_files st);
          deleted_icons = filter (\<lambda>f. endswith_any f [''.svg'', ''.ico'']) (deleted_files st)
      in if added_icons \<noteq> [] \<or> modified_icons \<noteq> [] \<or> deleted_icons \<noteq> []
         then (if length added_icons = 1 \<and> modified_icons = [] \<and> deleted_icons = []
               then ''feat: add '' @ added_icons ! 0
               else if length modified_icons = 1 \<and> added_icons = [] \<and> deleted_icons = []
               then ''feat: update '' @ modified_icons ! 0
               else (let counts0 = [];
                         counts1 = (if added_icons \<noteq> []
                                    then counts0 @ [''add '' @ str_int (int (length added_icons))]
                                    else counts0);
                         counts2 = (if modified_icons \<noteq> []
                                    then counts1 @ [''update '' @ str_int (int (length modified_icons))]
                                    else counts1);
                         counts3 = (if deleted_icons \<noteq> []
                                    then counts2 @ [''remove '' @ str_int (int (length deleted_icons))]
                                    else counts2)
                     in ''feat: '' @ str_join '', '' counts3 @ '' icons''))
         else (if list_ex (\<lambda>p. endswith p ''.md'') (all_changed_paths st)
               then ''docs: update documentation''
               else if list_ex (\<lambda>p. contains ''.github'' p) (all_changed_paths st)
               then ''ci: update workflow''
               else ''chore: update files '' @ today))"

definition ico_git_commit_and_push ::
  "os_path \<Rightarrow> string \<Rightarrow> string list \<Rightarrow> string option \<Rightarrow> exn + string option" where
  "ico_git_commit_and_push os today status_lines message =
     (if status_lines \<noteq> []
      then (case message of
              None \<Rightarrow>
                (case ico_read_status os status_lines
                        \<lparr>added_files = [], modified_files = [], deleted_files = [],
                         all_changed_paths = []\<rparr> of
                   Inl e \<Rightarrow> Inl e
                 | Inr st \<Rightarrow> Inr (Some (ico_message_of today st)))
            | Some m \<Rightarrow> Inr (Some m))
      else Inr None)"

section \<open>Notions used to state the properties\<close>

text \<open>
  The conversions ordered for one base file, grouped into runs of consecutive sizes drawn
  from the same source: the specification's render plan, a list of pairs of a source path
  and the sizes it services.
\<close>

fun render_plan :: "(string \<times> int) list \<Rightarrow> (string \<times> int list) list" where
  "render_plan [] = []"
| "render_plan ((p, s) # jobs) =
     (case render_plan jobs of
        [] \<Rightarrow> [(p, [s])]
      | (q, ss) # plan \<Rightarrow> if p = q then (p, s # ss) # plan else (p, [s]) # (q, ss) # plan)"

text \<open>The name the scripts look up for a base file and a size.\<close>

definition variant_name_of :: "string \<Rightarrow> int \<Rightarrow> string" where
  "variant_name_of base sz = chop 4 base @ ''-'' @ str_int sz @ ''px.svg''"

text \<open>
  A concrete \<^verbatim>\<open>os.path\<close> for the examples below. It agrees with \<^verbatim>\<open>posixpath\<close> on
  the paths used there: a non-empty directory without a trailing slash joined with a
  relative name, and paths that \<^verbatim>\<open>normpath\<close> leaves alone (no empty, \<^verbatim>\<open>.\<close> or
  \<^verbatim>\<open>..\<close> component).
\<close>

definition plain_paths :: os_path where
  "plain_paths =
     \<lparr>join = (\<lambda>a b. a @ ''/'' @ b),
      normpath = (\<lambda>p. p),
      basename = (\<lambda>p. rev (takeWhile (\<lambda>c. c \<noteq> CHR ''/'') (rev p)))\<rparr>"

definition no_git :: git_output where
  \<comment> \<open>every query fails: \<^verbatim>\<open>git\<close> is not installed\<close>
  "no_git = \<lparr>rev_parse = Inl OSError, diff_name_only = Inl OSError,
             diff_cached = Inl OSError, ls_files_others = Inl OSError\<rparr>"

definition example_git :: git_output where
  \<comment> \<open>a repository at \<^verbatim>\<open>/repo\<close> with one unstaged and one staged change\<close>
  "example_git = \<lparr>rev_parse = Inr ''/repo'', diff_name_only = Inr [''svg/b-16px.svg''],
                   diff_cached = Inr [''svg/c.svg''], ls_files_others = Inr []\<rparr>"

text \<open>The filter \<^verbatim>\<open>f.endswith(('.svg', '.ico'))\<close> that \<^verbatim>\<open>git_commit_and_push\<close> applies.\<close>

definition icons :: "string list \<Rightarrow> string list" where
  "icons files = filter (\<lambda>f. endswith_any f [''.svg'', ''.ico'']) files"

section \<open>Classification: properties\<close>

lemma any_of_const: "any_of (map (\<lambda>s. b) xs) = (xs \<noteq> [] \<and> b)"
  by (induction xs) (auto simp: any_of_def)

text \<open>
  What the suffix test accepts: exactly the strings made of any stem, the character
  \<^verbatim>\<open>#\<close>, a non-empty group of digits, and \<^verbatim>\<open>px\<close>.
\<close>

lemma rsplit1_parts:
  assumes "sep \<in> set s"
  shows "\<exists>before after. rsplit1 sep s = [before, after] \<and> s = before @ sep # after \<and> sep \<notin> set after"
proof -
  let ?r = "rev s"
  let ?t = "takeWhile (\<lambda>c. c \<noteq> sep) ?r"
  let ?d = "dropWhile (\<lambda>c. c \<noteq> sep) ?r"
  from assms have "?d \<noteq> []" by simp
  moreover have "hd ?d = sep" using \<open>?d \<noteq> []\<close> hd_dropWhile [of "\<lambda>c. c \<noteq> sep" ?r] by auto
  ultimately have d: "?d = sep # tl ?d" by (cases ?d) auto
  have "?r = ?t @ ?d" by simp
  then have "?r = ?t @ sep # tl ?d" using d by simp
  then have "rev ?r = rev (?t @ sep # tl ?d)" by (rule arg_cong)
  then have s: "s = rev (tl ?d) @ sep # rev ?t" by simp
  have "sep \<notin> set (rev ?t)" using set_takeWhileD [of sep "\<lambda>c. c \<noteq> sep" ?r] by auto
  with s assms show ?thesis unfolding rsplit1_def by auto
qed

lemma rsplit1_unique:
  assumes "s = before @ sep # after" "sep \<notin> set after"
  shows "rsplit1 sep s = [before, after]"
proof -
  have r: "rev s = rev after @ sep # rev before" using assms by simp
  have t: "takeWhile (\<lambda>c. c \<noteq> sep) (rev s) = rev after"
    unfolding r using assms(2) by (simp add: takeWhile_append)
  have d: "dropWhile (\<lambda>c. c \<noteq> sep) (rev s) = sep # rev before"
    unfolding r using assms(2) by (simp add: dropWhile_append)
  show ?thesis unfolding rsplit1_def t d using assms(1) by simp
qed

lemma endswith_append: "endswith (xs @ suf) suf"
  by (simp add: endswith_def)

lemma endswith_iff: "endswith s suf \<longleftrightarrow> (\<exists>pre. s = pre @ suf)"
proof
  assume "endswith s suf"
  then have "s = take (length s - length suf) s @ suf"
    unfolding endswith_def by (metis append_take_drop_id)
  then show "\<exists>pre. s = pre @ suf" ..
next
  assume "\<exists>pre. s = pre @ suf"
  then show "endswith s suf" by (auto simp: endswith_append)
qed

lemma drop_tail:
  "k \<le> length ys \<Longrightarrow> drop (length (xs @ ys) - k) (xs @ ys) = drop (length ys - k) ys"
  by simp

lemma ends_with_px_iff:
  "ends_with_px s \<longleftrightarrow>
     (\<exists>stem digits. s = stem @ ''#'' @ digits @ ''px'' \<and> digits \<noteq> [] \<and> list_all isdigit_char digits)"
proof
  assume e: "ends_with_px s"
  then have px: "endswith s ''px''" and hash: "CHR ''#'' \<in> set s"
    by (auto simp: ends_with_px_def rsplit1_def Let_def split: if_splits)
  from rsplit1_parts [OF hash] obtain before after where
    p: "rsplit1 CHR ''#'' s = [before, after]" and s: "s = before @ CHR ''#'' # after"
    and n: "CHR ''#'' \<notin> set after" by blast
  from e px p have dg: "isdigit (chop 2 after)"
    by (simp add: ends_with_px_def Let_def)
  then have ne: "chop 2 after \<noteq> []" by (simp add: isdigit_def)
  then have len: "2 \<le> length after" by (auto simp: chop_def)
  from px obtain pre where pre: "s = pre @ ''px''" unfolding endswith_iff by blast
  have "drop (length after - 2) after = ''px''"
  proof -
    have "drop (length s - 2) s = ''px''" using pre by simp
    moreover have "drop (length s - 2) s = drop (length after - 2) after"
      using drop_tail [OF len, of "before @ ''#''"] s by simp
    ultimately show ?thesis by simp
  qed
  then have "after = chop 2 after @ ''px''"
    unfolding chop_def by (metis append_take_drop_id)
  with s dg ne show "\<exists>stem digits. s = stem @ ''#'' @ digits @ ''px'' \<and> digits \<noteq> [] \<and> list_all isdigit_char digits"
    unfolding isdigit_def by (intro exI [of _ before] exI [of _ "chop 2 after"]) simp
next
  assume "\<exists>stem digits. s = stem @ ''#'' @ digits @ ''px'' \<and> digits \<noteq> [] \<and> list_all isdigit_char digits"
  then obtain stem digits where s: "s = stem @ ''#'' @ digits @ ''px''" and ne: "digits \<noteq> []"
    and dg: "list_all isdigit_char digits" by blast
  have nh: "CHR ''#'' \<notin> set (digits @ ''px'')"
    using dg by (auto simp: list_all_iff isdigit_char_def)
  have p: "rsplit1 CHR ''#'' s = [stem, digits @ ''px'']"
    by (rule rsplit1_unique [OF _ nh]) (simp add: s)
  have e: "endswith s ''px''"
    unfolding endswith_iff using s by (intro exI [of _ "stem @ ''#'' @ digits"]) simp
  show "ends_with_px s"
    using e p ne dg by (simp add: ends_with_px_def Let_def chop_def isdigit_def)
qed

text \<open>
  The names that the later stages look up, base stem, hyphen, size, \<^verbatim>\<open>px.svg\<close>, never
  pass that test, so they are never in the alternative list, whatever the listing.
\<close>

lemma isdigit_char_iff: "isdigit_char c \<longleftrightarrow> 48 \<le> (of_char c :: nat) \<and> (of_char c :: nat) \<le> 57"
  by (simp add: isdigit_char_def less_eq_char_def)

lemma str_nat_digits: "list_all isdigit_char (str_nat n)"
proof (induction n rule: str_nat.induct)
  case (1 n)
  show ?case
  proof (cases "n < 10")
    case True
    then show ?thesis by (subst str_nat.simps) (simp add: isdigit_char_iff)
  next
    case False
    have "n mod 10 < 10" by simp
    then have "isdigit_char (char_of (48 + n mod 10))"
      unfolding isdigit_char_iff by simp
    with False "1.IH" show ?thesis by (subst str_nat.simps) simp
  qed
qed

lemma str_int_no_hash: "CHR ''#'' \<notin> set (str_int sz)"
  using str_nat_digits [of "nat sz"] str_nat_digits [of "nat (- sz)"]
  by (auto simp: str_int_def list_all_iff isdigit_char_iff)

lemma lower_char_hash: "lower_char c = CHR ''#'' \<Longrightarrow> c = CHR ''#''"
proof -
  assume a: "lower_char c = CHR ''#''"
  show ?thesis
  proof (cases "CHR ''A'' \<le> c \<and> c \<le> CHR ''Z''")
    case True
    then have r: "65 \<le> (of_char c :: nat)" "(of_char c :: nat) \<le> 90"
      by (simp_all add: less_eq_char_def)
    from True a have "char_of (of_char c + (32::nat)) = CHR ''#''" by (simp add: lower_char_def)
    then have "(of_char (char_of (of_char c + (32::nat)) :: char) :: nat) = of_char CHR ''#''" by simp
    with r show ?thesis by simp
  next
    case False
    with a show ?thesis by (simp add: lower_char_def)
  qed
qed

lemma lower_no_hash:
  assumes "CHR ''#'' \<notin> set s"
  shows "CHR ''#'' \<notin> set (lower s)"
proof
  assume "CHR ''#'' \<in> set (lower s)"
  then obtain c where c: "c \<in> set s" and "lower_char c = CHR ''#''"
    by (auto simp: lower_def)
  then have "c = CHR ''#''" by (blast dest: lower_char_hash)
  with c assms show False by simp
qed

lemma chop_append: "length suf = n \<Longrightarrow> chop n (xs @ suf) = xs"
  by (simp add: chop_def)

lemma variant_not_px: "\<not> ends_with_px (lower (chop 4 (variant_name_of base sz)))"
proof
  assume "ends_with_px (lower (chop 4 (variant_name_of base sz)))"
  then obtain stem digits where
    eq: "lower (chop 4 (variant_name_of base sz)) = stem @ ''#'' @ digits @ ''px''"
    and dg: "list_all isdigit_char digits"
    unfolding ends_with_px_iff by blast
  have "variant_name_of base sz = (chop 4 base @ ''-'' @ str_int sz @ ''px'') @ ''.svg''"
    by (simp add: variant_name_of_def)
  then have c: "chop 4 (variant_name_of base sz) = chop 4 base @ ''-'' @ str_int sz @ ''px''"
    by (simp only: chop_append [of "''.svg''" 4, simplified])
  have l: "lower (chop 4 (variant_name_of base sz))
             = lower (chop 4 base) @ CHR ''-'' # lower (str_int sz) @ ''px''"
    unfolding c by (simp add: lower_def lower_char_def)
  from eq l have "lower (chop 4 base) @ CHR ''-'' # lower (str_int sz)
                    = stem @ CHR ''#'' # digits" by simp
  then consider us where "us @ CHR ''-'' # lower (str_int sz) = CHR ''#'' # digits"
    | us where "CHR ''-'' # lower (str_int sz) = us @ CHR ''#'' # digits"
    unfolding append_eq_append_conv2 by blast
  then show False
  proof cases
    case 1
    then have "CHR ''-'' \<in> set (CHR ''#'' # digits)" by (metis in_set_conv_decomp)
    then have "CHR ''-'' \<in> set digits" by simp
    with dg show False by (auto simp: list_all_iff isdigit_char_iff)
  next
    case 2
    then have "CHR ''#'' \<in> set (CHR ''-'' # lower (str_int sz))" by (metis in_set_conv_decomp)
    then have "CHR ''#'' \<in> set (lower (str_int sz))" by simp
    with lower_no_hash [OF str_int_no_hash] show False by blast
  qed
qed

lemma variant_never_alternative: "variant_name_of base sz \<notin> set (alt_filenames listdir sizes)"
  by (simp add: alt_filenames_def any_of_const variant_not_px)

text \<open>
  Claim C2. A name whose lower-cased stem is stem, hyphen, digits, \<^verbatim>\<open>px\<close> should be an
  override. The suffix test splits at \<^verbatim>\<open>#\<close>, so it rejects \<^verbatim>\<open>logo-16px\<close>: with the
  listing of the specification's example and the sizes 16, 32, 64 all four files are base
  files and there is no alternative.
\<close>

theorem C2_hyphen_names_are_base:
  "ends_with_px (lower (chop 4 ''logo-16px.svg'')) = False
   \<and> base_filenames [''logo.svg'', ''logo-16px.svg'', ''logo-32px.svg'', ''icon.svg''] [16, 32, 64]
       = [''icon.svg'', ''logo-16px.svg'', ''logo-32px.svg'', ''logo.svg'']
   \<and> alt_filenames [''logo.svg'', ''logo-16px.svg'', ''logo-32px.svg'', ''icon.svg''] [16, 32, 64]
       = []"
  by code_simp

text \<open>
  Claim C3, as stated, fails for a size list of one element: the second comprehension
  ranges over \<^verbatim>\<open>sizes[:-1]\<close>, which is then empty, so a file that passes the suffix
  test is in neither list.
\<close>

theorem C3_single_size_counterexample:
  "endswith (lower ''a#16px.svg'') ''.svg''
   \<and> base_filenames [''a#16px.svg''] [16] = []
   \<and> alt_filenames [''a#16px.svg''] [16] = []"
  by code_simp

text \<open>
  Claim C3, amended: for every listing and every size list of at least two elements, the
  base list and the alternative list together hold each file with the \<^verbatim>\<open>.svg\<close>
  extension exactly as often as the listing does, no name is in both, and both lists are
  sorted ascending.
\<close>

theorem C3_partition_sorted:
  assumes "2 \<le> length sizes"
  shows "mset (base_filenames listdir sizes) + mset (alt_filenames listdir sizes)
           = mset [f \<leftarrow> listdir. endswith (lower f) ''.svg'']
         \<and> set (base_filenames listdir sizes) \<inter> set (alt_filenames listdir sizes) = {}
         \<and> sorted (base_filenames listdir sizes)
         \<and> sorted (alt_filenames listdir sizes)"
proof -
  from assms have ne: "sizes \<noteq> []" and ne': "butlast sizes \<noteq> []"
    by (cases sizes; cases "tl sizes"; auto)+
  let ?svg = "\<lambda>f. endswith (lower f) ''.svg''"
  let ?px = "\<lambda>f. ends_with_px (lower (chop 4 f))"
  have b: "base_filenames listdir sizes = sort [f \<leftarrow> listdir. ?svg f \<and> \<not> ?px f]"
    using ne by (simp add: base_filenames_def any_of_const)
  have a: "alt_filenames listdir sizes = sort [f \<leftarrow> listdir. ?svg f \<and> ?px f]"
    using ne' by (simp add: alt_filenames_def any_of_const)
  have m: "mset [f \<leftarrow> listdir. ?svg f \<and> \<not> ?px f] + mset [f \<leftarrow> listdir. ?svg f \<and> ?px f]
             = mset (filter ?svg listdir)"
    by (induction listdir) auto
  show ?thesis
    unfolding a b using m by auto
qed

theorem C3_partition_sorted_witness:
  "2 \<le> length [16, 32 :: int]
   \<and> mset (base_filenames [''logo.svg'', ''a#16px.svg'', ''n.txt''] [16, 32])
       + mset (alt_filenames [''logo.svg'', ''a#16px.svg'', ''n.txt''] [16, 32])
       = mset [f \<leftarrow> [''logo.svg'', ''a#16px.svg'', ''n.txt'']. endswith (lower f) ''.svg'']
   \<and> set (base_filenames [''logo.svg'', ''a#16px.svg'', ''n.txt''] [16, 32])
       \<inter> set (alt_filenames [''logo.svg'', ''a#16px.svg'', ''n.txt''] [16, 32]) = {}
   \<and> sorted (base_filenames [''logo.svg'', ''a#16px.svg'', ''n.txt''] [16, 32])
   \<and> sorted (alt_filenames [''logo.svg'', ''a#16px.svg'', ''n.txt''] [16, 32])"
  using C3_partition_sorted [of "[16, 32]" "[''logo.svg'', ''a#16px.svg'', ''n.txt'']"] by simp

section \<open>Assignment of sizes: properties\<close>

lemma alt_inputs_eq:
  "alt_inputs os f alts b sizes =
     map (\<lambda>sz. \<lparr>path = join os f (variant_name_of b sz), maximum_size = sz\<rparr>)
         (filter (\<lambda>sz. variant_name_of b sz \<in> set alts) sizes)"
  by (induction sizes) (simp_all add: variant_name_of_def Let_def)

lemma alt_inputs_bounds:
  "map maximum_size (alt_inputs os f alts b sizes) = filter (\<lambda>sz. variant_name_of b sz \<in> set alts) sizes"
  by (simp add: alt_inputs_eq comp_def)

lemma render_plan_concat: "concat (map snd (render_plan jobs)) = map snd jobs"
proof (induction jobs)
  case Nil
  show ?case by simp
next
  case (Cons j jobs)
  obtain p s where j: "j = (p, s)" by (cases j)
  show ?case
  proof (cases "render_plan jobs")
    case Nil
    with Cons j show ?thesis by simp
  next
    case (Cons e plan)
    obtain q ss where e: "e = (q, ss)" by (cases e)
    from Cons.IH Cons e j show ?thesis by auto
  qed
qed

lemma sorted_le_last:
  fixes xs :: "int list"
  assumes "sorted xs" "x \<in> set xs"
  shows "x \<le> last xs"
  using assms by (induction xs) auto

lemma assign_sizes_never_exhausted:
  "\<forall>s\<in>set sizes. s \<le> maximum_size (last (cur # rest))
     \<Longrightarrow> \<exists>jobs. assign_sizes cur rest sizes = Inr jobs"
proof (induction sizes arbitrary: cur rest)
  case Nil
  show ?case by simp
next
  case (Cons s sizes)
  show ?case
  proof (cases "s > maximum_size cur")
    case True
    with Cons.prems obtain nxt rest' where r: "rest = nxt # rest'"
      by (cases rest) auto
    from Cons.prems r have "\<forall>s\<in>set sizes. s \<le> maximum_size (last (nxt # rest'))" by simp
    from Cons.IH [OF this] obtain jobs where "assign_sizes nxt rest' sizes = Inr jobs" ..
    with True r show ?thesis by simp
  next
    case False
    from Cons.prems have "\<forall>s\<in>set sizes. s \<le> maximum_size (last (cur # rest))" by simp
    from Cons.IH [OF this] obtain jobs where "assign_sizes cur rest sizes = Inr jobs" ..
    with False show ?thesis by simp
  qed
qed

lemma assign_sizes_first_fit:
  assumes "sorted_wrt (<) sizes"
      and "\<forall>s\<in>set sizes. s \<le> maximum_size (last (cur # rest))"
      and "\<forall>c\<in>set (butlast rest). maximum_size c \<in> set sizes \<and> maximum_size cur < maximum_size c"
      and "sorted_wrt (<) (map maximum_size (butlast rest))"
  shows "assign_sizes cur rest sizes
           = Inr (map (\<lambda>s. (path (the (find (\<lambda>c. s \<le> maximum_size c) (cur # rest))), s)) sizes)"
  using assms
proof (induction sizes arbitrary: cur rest)
  case Nil
  show ?case by simp
next
  case (Cons s sizes)
  from Cons.prems(1) have srt: "sorted_wrt (<) sizes" and gt: "\<forall>t\<in>set sizes. s < t" by auto
  show ?case
  proof (cases "s > maximum_size cur")
    case True
    with Cons.prems(2) obtain nxt rest' where r: "rest = nxt # rest'"
      by (cases rest) auto
    have fit: "s \<le> maximum_size nxt"
    proof (cases "rest' = []")
      case True
      with Cons.prems(2) r show ?thesis by simp
    next
      case False
      with r have "nxt \<in> set (butlast rest)" by simp
      with Cons.prems(3) have "maximum_size nxt \<in> set (s # sizes)" by blast
      with gt show ?thesis by auto
    qed
    have p2: "\<forall>t\<in>set sizes. t \<le> maximum_size (last (nxt # rest'))"
      using Cons.prems(2) r by simp
    have p3: "\<forall>c\<in>set (butlast rest'). maximum_size c \<in> set sizes \<and> maximum_size nxt < maximum_size c"
    proof
      fix c assume c: "c \<in> set (butlast rest')"
      then have ne: "rest' \<noteq> []" by auto
      with r c have cin: "c \<in> set (butlast rest)" by simp
      from Cons.prems(4) r ne c have lt: "maximum_size nxt < maximum_size c" by simp
      from Cons.prems(3) cin have "maximum_size c \<in> set (s # sizes)" by blast
      with lt fit show "maximum_size c \<in> set sizes \<and> maximum_size nxt < maximum_size c" by auto
    qed
    have p4: "sorted_wrt (<) (map maximum_size (butlast rest'))"
      using Cons.prems(4) r by (cases "rest' = []") simp_all
    have ih: "assign_sizes nxt rest' sizes
           = Inr (map (\<lambda>t. (path (the (find (\<lambda>c. t \<le> maximum_size c) (nxt # rest'))), t)) sizes)"
      by (rule Cons.IH [OF srt p2 p3 p4])
    have skip: "\<forall>t\<in>set sizes. find (\<lambda>c. t \<le> maximum_size c) (cur # rest)
                  = find (\<lambda>c. t \<le> maximum_size c) (nxt # rest')"
      using True gt r by auto
    have "map (\<lambda>t. (path (the (find (\<lambda>c. t \<le> maximum_size c) (nxt # rest'))), t)) sizes
            = map (\<lambda>t. (path (the (find (\<lambda>c. t \<le> maximum_size c) (cur # rest))), t)) sizes"
      using skip by (intro map_cong) simp_all
    with ih True r fit show ?thesis by simp
  next
    case False
    have p3: "\<forall>c\<in>set (butlast rest). maximum_size c \<in> set sizes \<and> maximum_size cur < maximum_size c"
      using Cons.prems(3) False by auto
    have p2: "\<forall>t\<in>set sizes. t \<le> maximum_size (last (cur # rest))"
      using Cons.prems(2) by simp
    have ih: "assign_sizes cur rest sizes
           = Inr (map (\<lambda>t. (path (the (find (\<lambda>c. t \<le> maximum_size c) (cur # rest))), t)) sizes)"
      by (rule Cons.IH [OF srt p2 p3 Cons.prems(4)])
    with False show ?thesis by simp
  qed
qed

lemma find_sorted_least:
  fixes f :: "'a \<Rightarrow> int"
  assumes "sorted (map f xs)" "find (\<lambda>c. s \<le> f c) xs = Some c" "c' \<in> set xs" "s \<le> f c'"
  shows "f c \<le> f c'"
  using assms
proof (induction xs)
  case Nil
  then show ?case by simp
next
  case (Cons x xs)
  show ?case
  proof (cases "s \<le> f x")
    case True
    with Cons.prems show ?thesis by auto
  next
    case False
    with Cons.prems have "c' \<in> set xs" by auto
    with Cons False show ?thesis by auto
  qed
qed

lemma assign_sizes_stay:
  "\<forall>s\<in>set sizes. s \<le> maximum_size cur
     \<Longrightarrow> assign_sizes cur rest sizes = Inr (map (\<lambda>s. (path cur, s)) sizes)"
  by (induction sizes) simp_all

text \<open>
  Hence, with the alternative list that the classification computes, every size of a
  base file is drawn from the base file itself.
\<close>

lemma alternatives_never_used:
  assumes "sizes \<noteq> []" and "sorted sizes"
  shows "process_base os input_folder (alt_filenames listdir sizes') base_filename sizes
           = Inr (map (\<lambda>s. (join os input_folder base_filename, s)) sizes)"
proof -
  have "alt_inputs os input_folder (alt_filenames listdir sizes') base_filename sizes = []"
    by (simp add: alt_inputs_eq variant_never_alternative)
  moreover have "\<forall>s\<in>set sizes. s \<le> last sizes"
    using assms(2) by (blast intro: sorted_le_last)
  ultimately show ?thesis
    using assms(1) by (simp add: process_base_def candidate_inputs_def assign_sizes_stay)
qed

text \<open>
  Claim C1. For a non-empty, strictly increasing size list, processing a base file
  succeeds; the conversions it orders carry the sizes of the list, each once and in
  order, so the serviced sizes of the render plan, concatenated, are the size list; and
  the source of each size is the first candidate whose \<^verbatim>\<open>maximum_size\<close> is at least
  that size, which has the least such bound among all candidates.
\<close>

theorem C1_smallest_source_in_order:
  assumes "sizes \<noteq> []" and "sorted_wrt (<) sizes"
  shows "\<exists>inputs jobs.
           candidate_inputs os input_folder alts base_filename sizes = Inr inputs
         \<and> process_base os input_folder alts base_filename sizes = Inr jobs
         \<and> map snd jobs = sizes
         \<and> concat (map snd (render_plan jobs)) = sizes
         \<and> (\<forall>i<length sizes.
               \<exists>c. find (\<lambda>c. sizes ! i \<le> maximum_size c) inputs = Some c
                 \<and> fst (jobs ! i) = path c
                 \<and> (\<forall>c'\<in>set inputs. sizes ! i \<le> maximum_size c'
                        \<longrightarrow> maximum_size c \<le> maximum_size c'))"
proof -
  define A where "A = alt_inputs os input_folder alts base_filename sizes"
  define B where "B = \<lparr>path = join os input_folder base_filename, maximum_size = last sizes\<rparr>"
  define inputs where "inputs = A @ [B]"
  define jobs where
    "jobs = map (\<lambda>s. (path (the (find (\<lambda>c. s \<le> maximum_size c) inputs)), s)) sizes"
  have cand: "candidate_inputs os input_folder alts base_filename sizes = Inr inputs"
    using assms(1) by (simp add: candidate_inputs_def inputs_def A_def B_def)
  have srt: "sorted sizes"
    using assms(2) by (rule strict_sorted_imp_sorted)
  have bounds: "map maximum_size A = filter (\<lambda>sz. variant_name_of base_filename sz \<in> set alts) sizes"
    unfolding A_def by (rule alt_inputs_bounds)
  have A_strict: "sorted_wrt (<) (map maximum_size A)"
    unfolding bounds using assms(2) by (rule sorted_wrt_filter)
  have A_in: "\<forall>c\<in>set A. maximum_size c \<in> set sizes"
  proof
    fix c assume "c \<in> set A"
    then have "maximum_size c \<in> set (map maximum_size A)" by simp
    then show "maximum_size c \<in> set sizes" unfolding bounds by simp
  qed
  have le_last: "\<forall>s\<in>set sizes. s \<le> last sizes"
    using srt by (blast intro: sorted_le_last)
  have sorted_inputs: "sorted (map maximum_size inputs)"
    using A_strict A_in le_last
    by (auto simp: inputs_def B_def sorted_append dest: strict_sorted_imp_sorted)
  obtain cur rest where cr: "inputs = cur # rest"
    by (cases inputs) (simp_all add: inputs_def)
  have last_cr: "last (cur # rest) = B"
    using cr by (metis inputs_def last_snoc)
  have bl: "rest \<noteq> [] \<Longrightarrow> cur # butlast rest = A"
    using cr by (metis butlast.simps(2) butlast_snoc inputs_def)
  have p2: "\<forall>s\<in>set sizes. s \<le> maximum_size (last (cur # rest))"
    unfolding last_cr using le_last by (simp add: B_def)
  have p3: "\<forall>c\<in>set (butlast rest). maximum_size c \<in> set sizes \<and> maximum_size cur < maximum_size c"
  proof
    fix c assume c: "c \<in> set (butlast rest)"
    then have "rest \<noteq> []" by auto
    then have eq: "cur # butlast rest = A" by (rule bl)
    from c eq have "c \<in> set A" by (metis list.set_intros(2))
    with A_in have 1: "maximum_size c \<in> set sizes" by blast
    from A_strict have "sorted_wrt (<) (map maximum_size (cur # butlast rest))"
      unfolding eq .
    with c have "maximum_size cur < maximum_size c" by simp
    with 1 show "maximum_size c \<in> set sizes \<and> maximum_size cur < maximum_size c" by simp
  qed
  have p4: "sorted_wrt (<) (map maximum_size (butlast rest))"
  proof (cases "rest = []")
    case True
    then show ?thesis by simp
  next
    case False
    then have eq: "cur # butlast rest = A" by (rule bl)
    from A_strict have "sorted_wrt (<) (map maximum_size (cur # butlast rest))"
      unfolding eq .
    then show ?thesis by simp
  qed
  have run: "assign_sizes cur rest sizes = Inr jobs"
    unfolding jobs_def cr by (rule assign_sizes_first_fit [OF assms(2) p2 p3 p4])
  have proc: "process_base os input_folder alts base_filename sizes = Inr jobs"
    using cand cr run by (simp add: process_base_def)
  have snds: "map snd jobs = sizes"
    unfolding jobs_def by (simp add: comp_def)
  have plan: "concat (map snd (render_plan jobs)) = sizes"
    using snds by (simp add: render_plan_concat)
  have each: "\<forall>i<length sizes.
               \<exists>c. find (\<lambda>c. sizes ! i \<le> maximum_size c) inputs = Some c
                 \<and> fst (jobs ! i) = path c
                 \<and> (\<forall>c'\<in>set inputs. sizes ! i \<le> maximum_size c'
                        \<longrightarrow> maximum_size c \<le> maximum_size c')"
  proof (intro allI impI)
    fix i assume i: "i < length sizes"
    then have "sizes ! i \<in> set sizes" by simp
    with le_last have "sizes ! i \<le> maximum_size B" by (simp add: B_def)
    moreover have "B \<in> set inputs" by (simp add: inputs_def)
    ultimately have "find (\<lambda>c. sizes ! i \<le> maximum_size c) inputs \<noteq> None"
      unfolding find_None_iff by blast
    then obtain c where c: "find (\<lambda>c. sizes ! i \<le> maximum_size c) inputs = Some c" by auto
    have "fst (jobs ! i) = path c"
      using i c by (simp add: jobs_def)
    moreover have "\<forall>c'\<in>set inputs. sizes ! i \<le> maximum_size c'
                        \<longrightarrow> maximum_size c \<le> maximum_size c'"
      using find_sorted_least [OF sorted_inputs c] by blast
    ultimately show "\<exists>c. find (\<lambda>c. sizes ! i \<le> maximum_size c) inputs = Some c
                 \<and> fst (jobs ! i) = path c
                 \<and> (\<forall>c'\<in>set inputs. sizes ! i \<le> maximum_size c'
                        \<longrightarrow> maximum_size c \<le> maximum_size c')"
      using c by blast
  qed
  from cand proc snds plan each show ?thesis by blast
qed

theorem C1_smallest_source_in_order_witness:
  "[16, 32, 48, 64, 256 :: int] \<noteq> []
   \<and> sorted_wrt (<) [16, 32, 48, 64, 256 :: int]
   \<and> (\<exists>inputs jobs.
           candidate_inputs plain_paths ''in'' [''logo-32px.svg'', ''logo-64px.svg'']
              ''logo.svg'' [16, 32, 48, 64, 256] = Inr inputs
         \<and> process_base plain_paths ''in'' [''logo-32px.svg'', ''logo-64px.svg'']
              ''logo.svg'' [16, 32, 48, 64, 256] = Inr jobs
         \<and> map snd jobs = [16, 32, 48, 64, 256]
         \<and> concat (map snd (render_plan jobs)) = [16, 32, 48, 64, 256]
         \<and> (\<forall>i<length [16, 32, 48, 64, 256 :: int].
               \<exists>c. find (\<lambda>c. [16, 32, 48, 64, 256] ! i \<le> maximum_size c) inputs = Some c
                 \<and> fst (jobs ! i) = path c
                 \<and> (\<forall>c'\<in>set inputs. [16, 32, 48, 64, 256] ! i \<le> maximum_size c'
                        \<longrightarrow> maximum_size c \<le> maximum_size c')))
   \<and> process_base plain_paths ''in'' [''logo-32px.svg'', ''logo-64px.svg'']
        ''logo.svg'' [16, 32, 48, 64, 256]
       = Inr [(''in/logo-32px.svg'', 16), (''in/logo-32px.svg'', 32),
              (''in/logo-64px.svg'', 48), (''in/logo-64px.svg'', 64), (''in/logo.svg'', 256)]
   \<and> render_plan [(''in/logo-32px.svg'', 16), (''in/logo-32px.svg'', 32),
                   (''in/logo-64px.svg'', 48), (''in/logo-64px.svg'', 64), (''in/logo.svg'', 256)]
       = [(''in/logo-32px.svg'', [16, 32]), (''in/logo-64px.svg'', [48, 64]),
          (''in/logo.svg'', [256])]"
proof -
  have h1: "[16, 32, 48, 64, 256 :: int] \<noteq> []" by simp
  have h2: "sorted_wrt (<) [16, 32, 48, 64, 256 :: int]" by simp
  have run: "process_base plain_paths ''in'' [''logo-32px.svg'', ''logo-64px.svg'']
        ''logo.svg'' [16, 32, 48, 64, 256]
       = Inr [(''in/logo-32px.svg'', 16), (''in/logo-32px.svg'', 32),
              (''in/logo-64px.svg'', 48), (''in/logo-64px.svg'', 64), (''in/logo.svg'', 256)]"
    by code_simp
  have plan: "render_plan [(''in/logo-32px.svg'', 16), (''in/logo-32px.svg'', 32),
                   (''in/logo-64px.svg'', 48), (''in/logo-64px.svg'', 64), (''in/logo.svg'', 256)]
       = [(''in/logo-32px.svg'', [16, 32]), (''in/logo-64px.svg'', [48, 64]),
          (''in/logo.svg'', [256])]"
    by code_simp
  note inst = C1_smallest_source_in_order [OF h1 h2, of plain_paths "''in''"
      "[''logo-32px.svg'', ''logo-64px.svg'']" "''logo.svg''"]
  from h1 h2 inst run plan show ?thesis by (intro conjI)
qed

text \<open>
  Claim C7. With an empty size list the processing of a base file fails: \<^verbatim>\<open>sizes[-1]\<close>
  raises \<^verbatim>\<open>IndexError\<close> before any conversion is ordered.
\<close>

theorem C7_empty_sizes_fail:
  "process_base os input_folder alts base_filename [] = Inl IndexError"
  by (simp add: process_base_def candidate_inputs_def)

theorem C7_empty_sizes_fail_witness:
  "process_base plain_paths ''in'' [''logo-16px.svg''] ''logo.svg'' [] = Inl IndexError"
  by (rule C7_empty_sizes_fail)

text \<open>
  Claim C9. For a non-empty ascending size list, processing a base file never pops from
  an empty candidate list. This holds for the candidates the scripts build, and for any
  candidate list whatever that ends with an entry whose \<^verbatim>\<open>maximum_size\<close> is the last,
  largest size.
\<close>

theorem C9_candidates_never_exhausted:
  assumes "sizes \<noteq> []" and "sorted sizes"
  shows "(\<exists>jobs. process_base os input_folder alts base_filename sizes = Inr jobs)
       \<and> (\<forall>cands b. maximum_size b = last sizes
             \<longrightarrow> (\<exists>jobs. assign_sizes (hd (cands @ [b])) (tl (cands @ [b])) sizes = Inr jobs))"
proof -
  have le_last: "\<forall>s\<in>set sizes. s \<le> last sizes"
    using assms(2) by (blast intro: sorted_le_last)
  have gen: "\<exists>jobs. assign_sizes (hd (cands @ [b])) (tl (cands @ [b])) sizes = Inr jobs"
    if b: "maximum_size b = last sizes" for cands b
  proof -
    have "last (hd (cands @ [b]) # tl (cands @ [b])) = b" by simp
    with le_last b have "\<forall>s\<in>set sizes. s \<le> maximum_size (last (hd (cands @ [b]) # tl (cands @ [b])))"
      by simp
    then show ?thesis by (rule assign_sizes_never_exhausted)
  qed
  define A where "A = alt_inputs os input_folder alts base_filename sizes"
  define B where "B = \<lparr>path = join os input_folder base_filename, maximum_size = last sizes\<rparr>"
  have "process_base os input_folder alts base_filename sizes
          = assign_sizes (hd (A @ [B])) (tl (A @ [B])) sizes"
    using assms(1) by (cases A) (simp_all add: process_base_def candidate_inputs_def A_def B_def)
  moreover have "maximum_size B = last sizes" by (simp add: B_def)
  ultimately show ?thesis using gen by auto
qed

theorem C9_candidates_never_exhausted_witness:
  "[16, 32, 64 :: int] \<noteq> [] \<and> sorted [16, 32, 64 :: int]
   \<and> (\<exists>jobs. process_base plain_paths ''in'' [''logo-16px.svg''] ''logo.svg'' [16, 32, 64]
                = Inr jobs)
   \<and> (\<exists>jobs. assign_sizes
                (hd ([\<lparr>path = ''a'', maximum_size = 1\<rparr>, \<lparr>path = ''b'', maximum_size = 2\<rparr>]
                      @ [\<lparr>path = ''c'', maximum_size = 64\<rparr>]))
                (tl ([\<lparr>path = ''a'', maximum_size = 1\<rparr>, \<lparr>path = ''b'', maximum_size = 2\<rparr>]
                      @ [\<lparr>path = ''c'', maximum_size = 64\<rparr>]))
                [16, 32, 64] = Inr jobs)"
proof -
  have h1: "[16, 32, 64 :: int] \<noteq> []" by simp
  have h2: "sorted [16, 32, 64 :: int]" by simp
  note inst = C9_candidates_never_exhausted [OF h1 h2, of plain_paths "''in''"
      "[''logo-16px.svg'']" "''logo.svg''"]
  from inst have a: "\<exists>jobs. process_base plain_paths ''in'' [''logo-16px.svg''] ''logo.svg''
      [16, 32, 64] = Inr jobs" by (rule conjunct1)
  from inst have "\<forall>cands b. maximum_size b = last [16, 32, 64 :: int]
      \<longrightarrow> (\<exists>jobs. assign_sizes (hd (cands @ [b])) (tl (cands @ [b])) [16, 32, 64] = Inr jobs)"
    by (rule conjunct2)
  then have b: "\<exists>jobs. assign_sizes
                (hd ([\<lparr>path = ''a'', maximum_size = 1\<rparr>, \<lparr>path = ''b'', maximum_size = 2\<rparr>]
                      @ [\<lparr>path = ''c'', maximum_size = 64\<rparr>]))
                (tl ([\<lparr>path = ''a'', maximum_size = 1\<rparr>, \<lparr>path = ''b'', maximum_size = 2\<rparr>]
                      @ [\<lparr>path = ''c'', maximum_size = 64\<rparr>]))
                [16, 32, 64] = Inr jobs"
    by (simp del: append.simps hd_append2 tl_append2 list.sel)
  from h1 h2 a b show ?thesis by (intro conjI)
qed

text \<open>
  Claim C8, as stated, fails: the candidates are looked up by requested size, so an
  alternative tagged with another size is not a candidate at all. With the requested
  sizes 16, 32, 64 and an alternative \<^verbatim>\<open>logo-20px.svg\<close> in the list, the only candidate
  is the base file and every size is drawn from it, size 16 included. The same holds from
  the listing on, for an alternative that the classification accepts.
\<close>

theorem C8_unrequested_size_counterexample:
  "candidate_inputs plain_paths ''in'' [''logo-20px.svg''] ''logo.svg'' [16, 32, 64]
     = Inr [\<lparr>path = ''in/logo.svg'', maximum_size = 64\<rparr>]
   \<and> process_base plain_paths ''in'' [''logo-20px.svg''] ''logo.svg'' [16, 32, 64]
     = Inr [(''in/logo.svg'', 16), (''in/logo.svg'', 32), (''in/logo.svg'', 64)]
   \<and> alt_filenames [''logo.svg'', ''logo#20px.svg''] [16, 32, 64] = [''logo#20px.svg'']
   \<and> snd (convert_svg_to_ico plain_paths ''in'' [''logo.svg'', ''logo#20px.svg''] no_git
             [16, 32, 64] False)
     = Inr [(''logo.svg'', [(''in/logo.svg'', 16), (''in/logo.svg'', 32), (''in/logo.svg'', 64)])]"
  by code_simp

text \<open>
  Claim C8, amended: an alternative whose size tag is not among the requested sizes takes
  no part. The candidates before the base file are exactly the alternatives named base
  stem, hyphen, size, \<^verbatim>\<open>px.svg\<close> for a requested size, in the order of the sizes; two
  alternative lists that agree on these names give the same candidates and the same
  conversions.
\<close>

theorem C8_only_requested_sizes_are_candidates:
  assumes "\<forall>sz\<in>set sizes. (variant_name_of b sz \<in> set alts) = (variant_name_of b sz \<in> set alts')"
  shows "candidate_inputs os f alts b sizes = candidate_inputs os f alts' b sizes
       \<and> process_base os f alts b sizes = process_base os f alts' b sizes
       \<and> alt_inputs os f alts b sizes
           = map (\<lambda>sz. \<lparr>path = join os f (variant_name_of b sz), maximum_size = sz\<rparr>)
                 (filter (\<lambda>sz. variant_name_of b sz \<in> set alts) sizes)"
proof -
  from assms have "filter (\<lambda>sz. variant_name_of b sz \<in> set alts) sizes
                 = filter (\<lambda>sz. variant_name_of b sz \<in> set alts') sizes"
    by (intro filter_cong) simp_all
  then have "alt_inputs os f alts b sizes = alt_inputs os f alts' b sizes"
    by (simp add: alt_inputs_eq)
  then have "candidate_inputs os f alts b sizes = candidate_inputs os f alts' b sizes"
    by (simp add: candidate_inputs_def)
  then show ?thesis
    by (simp add: process_base_def alt_inputs_eq)
qed

theorem C8_only_requested_sizes_are_candidates_witness:
  "candidate_inputs plain_paths ''in'' [''logo-20px.svg'', ''logo-32px.svg''] ''logo.svg''
       [16, 32, 64]
     = candidate_inputs plain_paths ''in'' [''logo-32px.svg''] ''logo.svg'' [16, 32, 64]
   \<and> process_base plain_paths ''in'' [''logo-20px.svg'', ''logo-32px.svg''] ''logo.svg''
       [16, 32, 64]
     = process_base plain_paths ''in'' [''logo-32px.svg''] ''logo.svg'' [16, 32, 64]
   \<and> alt_inputs plain_paths ''in'' [''logo-20px.svg'', ''logo-32px.svg''] ''logo.svg''
       [16, 32, 64]
     = map (\<lambda>sz. \<lparr>path = join plain_paths ''in'' (variant_name_of ''logo.svg'' sz),
                   maximum_size = sz\<rparr>)
           (filter (\<lambda>sz. variant_name_of ''logo.svg'' sz
                            \<in> set [''logo-20px.svg'', ''logo-32px.svg'']) [16, 32, 64])"
proof -
  have h: "\<forall>sz\<in>set [16, 32, 64].
             (variant_name_of ''logo.svg'' sz \<in> set [''logo-20px.svg'', ''logo-32px.svg''])
               = (variant_name_of ''logo.svg'' sz \<in> set [''logo-32px.svg''])"
    by code_simp
  show ?thesis
    by (rule C8_only_requested_sizes_are_candidates [OF h])
qed

section \<open>Incremental filtering: properties\<close>

lemma variant_changed_iff:
  "variant_changed os f alts changed base sizes
     \<longleftrightarrow> (\<exists>sz\<in>set sizes. variant_name_of base sz \<in> set alts
              \<and> normpath os (join os f (variant_name_of base sz)) \<in> changed)"
  by (induction sizes) (auto simp: variant_name_of_def Let_def)

lemma filtered_base_eq:
  "filtered_base os f alts changed sizes bases
     = filter (\<lambda>base. normpath os (join os f base) \<in> changed
                     \<or> variant_changed os f alts changed base sizes) bases"
  by (induction bases) (simp_all add: Let_def)

lemma filter_changed_later_failure:
  assumes "rev_parse git = Inr out"
      and "changed_paths os (strip out)
             [diff_name_only git, diff_cached git, ls_files_others git] {} = Inl e"
  shows "filter_changed os input_folder git bases alts sizes
           = ([Filtering_for_changed, Repo_root (strip out), Failed_to_filter e], Inr bases)"
  using assms by (simp add: filter_changed_def Let_def)

text \<open>
  What the branch computes when all four queries succeed: the base list filtered by the
  test the two loops make, in the order of the list.
\<close>

lemma filter_changed_success:
  assumes "rev_parse git = Inr out"
      and "changed_paths os (strip out)
             [diff_name_only git, diff_cached git, ls_files_others git] {} = Inr changed"
  shows "snd (filter_changed os input_folder git bases alts sizes)
           = Inr (filter (\<lambda>base. normpath os (join os input_folder base) \<in> changed
                              \<or> (\<exists>sz\<in>set sizes. variant_name_of base sz \<in> set alts
                                    \<and> normpath os (join os input_folder (variant_name_of base sz))
                                        \<in> changed)) bases)"
  using assms by (simp add: filter_changed_def Let_def filtered_base_eq variant_changed_iff)

text \<open>
  Claim C4. A base file should be kept exactly when its own normalised absolute path is
  in the change set, or that of an override named base stem, hyphen, size, \<^verbatim>\<open>px.svg\<close>
  for a requested size. The listing is \<^verbatim>\<open>a.svg\<close>, \<^verbatim>\<open>b.svg\<close>, \<^verbatim>\<open>b-16px.svg\<close>,
  \<^verbatim>\<open>c.svg\<close>, the sizes are 16 and 32, the repository is \<^verbatim>\<open>/repo\<close>, and the change
  set holds the absolute paths of \<^verbatim>\<open>b-16px.svg\<close> and \<^verbatim>\<open>c.svg\<close>. The scripts compare
  it with \<^verbatim>\<open>normpath(join(input_folder, base))\<close>, which is absolute only when
  \<^verbatim>\<open>input_folder\<close> is: with the relative folder \<^verbatim>\<open>svg\<close> nothing is kept, although
  \<^verbatim>\<open>c.svg\<close> changed. With the absolute folder \<^verbatim>\<open>/repo/svg\<close> the file \<^verbatim>\<open>b.svg\<close> is
  not kept although its override changed: the lookup \<^verbatim>\<open>variant_name in alt_filenames\<close>
  never succeeds, since the classification puts \<^verbatim>\<open>b-16px.svg\<close> among the base files.
\<close>

theorem C4_changed_files_not_kept:
  "changed_paths plain_paths (strip ''/repo'')
        [diff_name_only example_git, diff_cached example_git, ls_files_others example_git] {}
       = Inr {''/repo/svg/b-16px.svg'', ''/repo/svg/c.svg''}
   \<and> snd (filter_changed plain_paths ''svg'' example_git
             (base_filenames [''a.svg'', ''b.svg'', ''b-16px.svg'', ''c.svg''] [16, 32])
             (alt_filenames [''a.svg'', ''b.svg'', ''b-16px.svg'', ''c.svg''] [16, 32]) [16, 32])
       = Inr []
   \<and> snd (filter_changed plain_paths ''/repo/svg'' example_git
             (base_filenames [''a.svg'', ''b.svg'', ''b-16px.svg'', ''c.svg''] [16, 32])
             (alt_filenames [''a.svg'', ''b.svg'', ''b-16px.svg'', ''c.svg''] [16, 32]) [16, 32])
       = Inr [''b-16px.svg'', ''c.svg'']"
proof -
  have changed: "changed_paths plain_paths (strip ''/repo'')
        [diff_name_only example_git, diff_cached example_git, ls_files_others example_git] {}
       = Inr {''/repo/svg/b-16px.svg'', ''/repo/svg/c.svg''}"
    by (auto simp add: example_git_def plain_paths_def strip_def isspace_char_def)
  have relative: "snd (filter_changed plain_paths ''svg'' example_git
             (base_filenames [''a.svg'', ''b.svg'', ''b-16px.svg'', ''c.svg''] [16, 32])
             (alt_filenames [''a.svg'', ''b.svg'', ''b-16px.svg'', ''c.svg''] [16, 32]) [16, 32])
       = Inr []"
    by code_simp
  have absolute: "snd (filter_changed plain_paths ''/repo/svg'' example_git
             (base_filenames [''a.svg'', ''b.svg'', ''b-16px.svg'', ''c.svg''] [16, 32])
             (alt_filenames [''a.svg'', ''b.svg'', ''b-16px.svg'', ''c.svg''] [16, 32]) [16, 32])
       = Inr [''b-16px.svg'', ''c.svg'']"
    by code_simp
  from changed relative absolute show ?thesis by (intro conjI)
qed

text \<open>
  Claim C6. A failing version-control query should leave the work list as it was, with a
  warning. When the first query, \<^verbatim>\<open>git rev-parse --show-toplevel\<close>, is the one that
  fails, the handler itself raises \<^verbatim>\<open>UnboundLocalError\<close> on \<^verbatim>\<open>repo_root\<close>, and
  \<^verbatim>\<open>convert_svg_to_ico\<close> ends with that exception: no base file is processed. (When a
  later query fails, \<open>filter_changed_later_failure\<close> above shows the intended
  behaviour.)
\<close>

theorem C6_first_query_failure_aborts:
  "snd (convert_svg_to_ico os input_folder listdir (git\<lparr>rev_parse := Inl e\<rparr>) sizes True)
     = Inl UnboundLocalError"
  by (simp add: convert_svg_to_ico_def filter_changed_def Let_def)

theorem C6_first_query_failure_aborts_witness:
  "snd (convert_svg_to_ico plain_paths ''svg'' [''logo.svg'']
          (no_git\<lparr>rev_parse := Inl OSError\<rparr>) [16, 32] True)
     = Inl UnboundLocalError
   \<and> snd (convert_svg_to_ico plain_paths ''svg'' [''logo.svg''] no_git [16, 32] False)
       = Inr [(''logo.svg'', [(''svg/logo.svg'', 16), (''svg/logo.svg'', 32)])]"
proof -
  have full: "snd (convert_svg_to_ico plain_paths ''svg'' [''logo.svg''] no_git [16, 32] False)
       = Inr [(''logo.svg'', [(''svg/logo.svg'', 16), (''svg/logo.svg'', 32)])]"
    by code_simp
  note inst = C6_first_query_failure_aborts [where os = plain_paths and input_folder = "''svg''"
      and listdir = "[''logo.svg'']" and git = no_git and e = OSError and sizes = "[16, 32]"]
  from inst full show ?thesis by (intro conjI)
qed

section \<open>The commit message: properties\<close>

text \<open>
  Claim C5, as stated, fails: the message built from the counts ends in \<^verbatim>\<open> icons\<close>.
  One added and one modified icon give \<^verbatim>\<open>feat: add 1, update 1 icons\<close>.
\<close>

theorem C5_suffix_counterexample:
  "git_commit_and_push plain_paths ''2024-05-01'' [''A  svg/foo.svg'', ''M  svg/bar.svg''] None
     = Inr (Some ''feat: add 1, update 1 icons'')
   \<and> git_commit_and_push plain_paths ''2024-05-01'' [''A  svg/foo.svg'', ''M  svg/bar.svg''] None
     \<noteq> Inr (Some ''feat: add 1, update 1'')"
  by code_simp

text \<open>
  Claim C5, amended: when some icon file changed and neither the single-add nor the
  single-update rule applies, the message is \<^verbatim>\<open>feat: \<close>, then the clauses
  \<^verbatim>\<open>add n\<close>, \<^verbatim>\<open>update n\<close>, \<^verbatim>\<open>remove n\<close> in this order, those with a non-zero count
  only, joined by a comma and a space, then \<^verbatim>\<open> icons\<close>.
\<close>

theorem C5_count_message:
  assumes "icons (added_files st) \<noteq> [] \<or> icons (modified_files st) \<noteq> []
             \<or> icons (deleted_files st) \<noteq> []"
      and "\<not> (length (icons (added_files st)) = 1 \<and> icons (modified_files st) = []
                \<and> icons (deleted_files st) = [])"
      and "\<not> (length (icons (modified_files st)) = 1 \<and> icons (added_files st) = []
                \<and> icons (deleted_files st) = [])"
  shows "message_of today st
           = ''feat: ''
             @ str_join '', ''
                 (map (\<lambda>(verb, n). verb @ '' '' @ str_int (int n))
                      (filter (\<lambda>(verb, n). n \<noteq> 0)
                         [(''add'', length (icons (added_files st))),
                          (''update'', length (icons (modified_files st))),
                          (''remove'', length (icons (deleted_files st)))]))
             @ '' icons''"
proof -
  define a where "a = icons (added_files st)"
  define m where "m = icons (modified_files st)"
  define d where "d = icons (deleted_files st)"
  have msg: "message_of today st =
     (if a \<noteq> [] \<or> m \<noteq> [] \<or> d \<noteq> []
         then (if length a = 1 \<and> m = [] \<and> d = []
               then ''feat: add '' @ a ! 0
               else if length m = 1 \<and> a = [] \<and> d = []
               then ''feat: update '' @ m ! 0
               else ''feat: '' @ str_join '', ''
                      ((if a \<noteq> [] then [''add '' @ str_int (int (length a))] else [])
                       @ (if m \<noteq> [] then [''update '' @ str_int (int (length m))] else [])
                       @ (if d \<noteq> [] then [''remove '' @ str_int (int (length d))] else []))
                    @ '' icons'')
         else (if list_ex (\<lambda>p. endswith p ''.md'') (all_changed_paths st)
               then ''docs: update documentation''
               else if list_ex (\<lambda>p. contains ''.github'' p) (all_changed_paths st)
               then ''ci: update workflow''
               else ''chore: update files '' @ today))"
    unfolding message_of_def Let_def a_def m_def d_def icons_def by simp
  have clauses: "map (\<lambda>(verb, n). verb @ '' '' @ str_int (int n))
                      (filter (\<lambda>(verb, n). n \<noteq> 0)
                         [(''add'', length a), (''update'', length m), (''remove'', length d)])
      = (if a \<noteq> [] then [''add '' @ str_int (int (length a))] else [])
                       @ (if m \<noteq> [] then [''update '' @ str_int (int (length m))] else [])
                       @ (if d \<noteq> [] then [''remove '' @ str_int (int (length d))] else [])"
    by simp
  from assms have "a \<noteq> [] \<or> m \<noteq> [] \<or> d \<noteq> []" "\<not> (length a = 1 \<and> m = [] \<and> d = [])"
     "\<not> (length m = 1 \<and> a = [] \<and> d = [])"
    unfolding a_def m_def d_def by blast+
  then have "message_of today st = ''feat: '' @ str_join '', ''
                      ((if a \<noteq> [] then [''add '' @ str_int (int (length a))] else [])
                       @ (if m \<noteq> [] then [''update '' @ str_int (int (length m))] else [])
                       @ (if d \<noteq> [] then [''remove '' @ str_int (int (length d))] else []))
                    @ '' icons''"
    unfolding msg by (simp only: if_True if_False)
  then show ?thesis
    by (simp only: clauses a_def [symmetric] m_def [symmetric] d_def [symmetric])
qed

theorem C5_count_message_witness:
  "message_of ''2024-05-01''
      \<lparr>added_files = [''foo.svg''], modified_files = [''bar.svg''], deleted_files = [],
       all_changed_paths = [''svg/foo.svg'', ''svg/bar.svg'']\<rparr>
     = ''feat: add 1, update 1 icons''"
proof -
  let ?st = "\<lparr>added_files = [''foo.svg''], modified_files = [''bar.svg''], deleted_files = [],
       all_changed_paths = [''svg/foo.svg'', ''svg/bar.svg'']\<rparr>"
  have i: "icons (added_files ?st) = [''foo.svg'']" "icons (modified_files ?st) = [''bar.svg'']"
      "icons (deleted_files ?st) = []"
    by (simp_all add: icons_def endswith_any_def endswith_def)
  have h1: "icons (added_files ?st) \<noteq> [] \<or> icons (modified_files ?st) \<noteq> []
             \<or> icons (deleted_files ?st) \<noteq> []"
    unfolding i by simp
  have h2: "\<not> (length (icons (added_files ?st)) = 1 \<and> icons (modified_files ?st) = []
                \<and> icons (deleted_files ?st) = [])"
    unfolding i by simp
  have h3: "\<not> (length (icons (modified_files ?st)) = 1 \<and> icons (added_files ?st) = []
                \<and> icons (deleted_files ?st) = [])"
    unfolding i by simp
  have one: "str_int 1 = ''1''"
    by code_simp
  from C5_count_message [OF h1 h2 h3, of "''2024-05-01''"] show ?thesis
    unfolding i by (simp add: one)
qed

section \<open>The two scripts compared\<close>

lemma ico_ends_with_px_eq: "ico_ends_with_px s = ends_with_px s"
  by (simp add: ico_ends_with_px_def ends_with_px_def)

lemma ico_base_filenames_eq: "ico_base_filenames listdir sizes = base_filenames listdir sizes"
  by (simp add: ico_base_filenames_def base_filenames_def ico_ends_with_px_eq)

lemma ico_alt_filenames_eq: "ico_alt_filenames listdir sizes = alt_filenames listdir sizes"
  by (simp add: ico_alt_filenames_def alt_filenames_def ico_ends_with_px_eq)

lemma ico_changed_paths_eq:
  "ico_changed_paths os repo_root cmds acc = changed_paths os repo_root cmds acc"
  by (induction os repo_root cmds acc rule: changed_paths.induct) simp_all

lemma ico_variant_changed_eq:
  "ico_variant_changed os f alts changed base sizes = variant_changed os f alts changed base sizes"
  by (induction sizes) (simp_all add: Let_def)

lemma ico_filtered_base_eq:
  "ico_filtered_base os f alts changed sizes bases = filtered_base os f alts changed sizes bases"
  by (induction bases) (simp_all add: ico_variant_changed_eq)

lemma ico_filter_changed_result:
  "snd (ico_filter_changed os f git bases alts sizes) = snd (filter_changed os f git bases alts sizes)"
  by (simp add: ico_filter_changed_def filter_changed_def ico_changed_paths_eq
        ico_filtered_base_eq Let_def split: sum.splits)

lemma ico_filter_changed_messages:
  "map snd (fst (ico_filter_changed os f git bases alts sizes))
     = fst (filter_changed os f git bases alts sizes)"
  by (simp add: ico_filter_changed_def filter_changed_def ico_changed_paths_eq
        ico_filtered_base_eq Let_def split: sum.splits)

lemma ico_alt_inputs_eq:
  "ico_alt_inputs os f alts b sizes = alt_inputs os f alts b sizes"
  by (induction sizes) (simp_all add: Let_def)

lemma ico_assign_sizes_eq: "ico_assign_sizes cur inputs sizes = assign_sizes cur inputs sizes"
  by (induction cur inputs sizes rule: assign_sizes.induct) (simp_all split: list.splits)

lemma ico_process_base_eq:
  "ico_process_base os f alts b sizes = process_base os f alts b sizes"
  by (simp add: ico_process_base_def process_base_def ico_candidate_inputs_def
        candidate_inputs_def ico_alt_inputs_eq ico_assign_sizes_eq cong: list.case_cong)

lemma ico_process_all_eq:
  "ico_process_all os f alts sizes bases = process_all os f alts sizes bases"
  by (induction bases) (simp_all add: ico_process_base_eq cong: sum.case_cong)

lemma ico_convert_result:
  "snd (ico_convert_svg_to_ico os f listdir git sizes0 only_changed)
     = snd (convert_svg_to_ico os f listdir git sizes0 only_changed)"
proof (cases only_changed)
  case True
  obtain lg w where i: "ico_filter_changed os f git (base_filenames listdir (sort sizes0))
      (alt_filenames listdir (sort sizes0)) (sort sizes0) = (lg, w)" by (cases "ico_filter_changed os f git (base_filenames listdir (sort sizes0))
      (alt_filenames listdir (sort sizes0)) (sort sizes0)")
  obtain pr w' where p: "filter_changed os f git (base_filenames listdir (sort sizes0))
      (alt_filenames listdir (sort sizes0)) (sort sizes0) = (pr, w')" by (cases "filter_changed os f git (base_filenames listdir (sort sizes0))
      (alt_filenames listdir (sort sizes0)) (sort sizes0)")
  from i p have "w = w'"
    using ico_filter_changed_result [of os f git "base_filenames listdir (sort sizes0)"
        "alt_filenames listdir (sort sizes0)" "sort sizes0"] by simp
  with True i p show ?thesis
    by (simp add: ico_convert_svg_to_ico_def convert_svg_to_ico_def Let_def
          ico_base_filenames_eq ico_alt_filenames_eq ico_process_all_eq split: sum.splits)
next
  case False
  then show ?thesis
    by (simp add: ico_convert_svg_to_ico_def convert_svg_to_ico_def Let_def
          ico_base_filenames_eq ico_alt_filenames_eq ico_process_all_eq split: sum.splits)
qed

lemma ico_read_status_eq: "ico_read_status os status_lines st = read_status os status_lines st"
  by (induction os status_lines st rule: read_status.induct)
     (simp_all add: Let_def split: list.splits)

lemma ico_message_of_eq: "ico_message_of today st = message_of today st"
  by (simp add: ico_message_of_def message_of_def)

lemma ico_git_commit_and_push_eq:
  "ico_git_commit_and_push os today status_lines message
     = git_commit_and_push os today status_lines message"
  by (simp add: ico_git_commit_and_push_def git_commit_and_push_def ico_read_status_eq
        ico_message_of_eq split: option.splits sum.splits)

text \<open>
  Claim C10. On the same listing, sizes, version-control output, status lines and date,
  the functions of \<^verbatim>\<open>batch_convert_to_ico.py\<close> and of \<^verbatim>\<open>batch_convert_to_ico_pro.py\<close>
  give the same base and alternative lists, the same conversions for a base file, the
  same filtered work list (or the same exception), the same outcome of
  \<^verbatim>\<open>convert_svg_to_ico\<close> and the same commit message; they differ in how they report.
\<close>

theorem C10_scripts_agree:
  "ico_base_filenames listdir sizes = base_filenames listdir sizes
   \<and> ico_alt_filenames listdir sizes = alt_filenames listdir sizes
   \<and> ico_process_base os input_folder alts base_filename sizes
       = process_base os input_folder alts base_filename sizes
   \<and> snd (ico_filter_changed os input_folder git bases alts sizes)
       = snd (filter_changed os input_folder git bases alts sizes)
   \<and> snd (ico_convert_svg_to_ico os input_folder listdir git sizes only_changed)
       = snd (convert_svg_to_ico os input_folder listdir git sizes only_changed)
   \<and> ico_git_commit_and_push os today status_lines message
       = git_commit_and_push os today status_lines message"
  by (simp only: ico_base_filenames_eq ico_alt_filenames_eq ico_process_base_eq
        ico_filter_changed_result ico_convert_result ico_git_commit_and_push_eq simp_thms)

theorem C10_scripts_agree_witness:
  "ico_base_filenames [''logo.svg'', ''a#16px.svg''] [16, 32]
       = base_filenames [''logo.svg'', ''a#16px.svg''] [16, 32]
   \<and> ico_alt_filenames [''logo.svg'', ''a#16px.svg''] [16, 32]
       = alt_filenames [''logo.svg'', ''a#16px.svg''] [16, 32]
   \<and> ico_process_base plain_paths ''/repo/svg'' [''b-16px.svg''] ''b.svg'' [16, 32]
       = process_base plain_paths ''/repo/svg'' [''b-16px.svg''] ''b.svg'' [16, 32]
   \<and> snd (ico_filter_changed plain_paths ''/repo/svg'' example_git [''a.svg'', ''b.svg'']
             [''b-16px.svg''] [16, 32])
       = snd (filter_changed plain_paths ''/repo/svg'' example_git [''a.svg'', ''b.svg'']
                [''b-16px.svg''] [16, 32])
   \<and> snd (ico_convert_svg_to_ico plain_paths ''/repo/svg'' [''logo.svg'', ''a#16px.svg'']
             example_git [16, 32] True)
       = snd (convert_svg_to_ico plain_paths ''/repo/svg'' [''logo.svg'', ''a#16px.svg'']
                example_git [16, 32] True)
   \<and> ico_git_commit_and_push plain_paths ''2024-05-01'' [''A  svg/foo.svg''] None
       = git_commit_and_push plain_paths ''2024-05-01'' [''A  svg/foo.svg''] None"
  by (rule C10_scripts_agree)

end
